theory Spec2Isabelle
  imports Main
begin

section \<open>JavaScript values\<close>

text \<open>
  The hook stores whatever \<^verbatim>\<open>JSON.parse\<close> returns (the cast \<^verbatim>\<open>msg as StateUpdate\<close> checks
  nothing at run time), so frames, history entries and the summary are untyped JavaScript
  values. \<open>Undefined\<close> is never produced by \<^verbatim>\<open>JSON.parse\<close>; it is what reading a missing
  property gives. Numbers are the integer-valued ones; no arithmetic is done on them here
  beyond a comparison with zero. Strings are sequences of code units below 256.
  An object is the list of its own properties; a parsed object has every key once, and
  \<open>map_of\<close> reads the first binding of a key.
\<close>

datatype jsval =
    Undefined
  | JNull
  | JBool bool
  | JNum int
  | JStr string
  | JArr "jsval list"
  | JObj "(string \<times> jsval) list"

datatype exn = TypeError | InvalidStateError | ReactChildError

text \<open>ToBoolean, as \<^verbatim>\<open>&&\<close> and \<^verbatim>\<open>!\<close> apply it.\<close>

fun truthy :: "jsval \<Rightarrow> bool" where
  "truthy Undefined = False"
| "truthy JNull = False"
| "truthy (JBool b) = b"
| "truthy (JNum n) = (n \<noteq> 0)"
| "truthy (JStr s) = (s \<noteq> [])"
| "truthy (JArr xs) = True"
| "truthy (JObj kvs) = True"

text \<open>
  Property read \<^verbatim>\<open>v.k\<close> for the field names of the frames (\<^verbatim>\<open>type\<close>, \<^verbatim>\<open>summary\<close>,
  \<^verbatim>\<open>sub_tasks\<close>, \<^verbatim>\<open>id\<close>, \<^verbatim>\<open>desc\<close>, \<^verbatim>\<open>status\<close> and the like): none of them is
  inherited from a prototype, so a primitive or an array has it undefined, an object has
  it when it is an own property, and reading it from \<^verbatim>\<open>null\<close> or \<^verbatim>\<open>undefined\<close>
  throws a TypeError. The \<^verbatim>\<open>length\<close> of a value is not read through this function.
\<close>

fun get_prop :: "jsval \<Rightarrow> string \<Rightarrow> exn + jsval" where
  "get_prop Undefined k = Inl TypeError"
| "get_prop JNull k = Inl TypeError"
| "get_prop (JObj kvs) k = Inr (case map_of kvs k of None \<Rightarrow> Undefined | Some v \<Rightarrow> v)"
| "get_prop v k = Inr Undefined"

text \<open>
  What \<^verbatim>\<open>JSON.parse(event.data)\<close> makes of a frame: it throws a SyntaxError on text
  that is not JSON, and returns the value otherwise.
\<close>

datatype parsed = SyntaxError | Value jsval

section \<open>The hook's state\<close>

datatype readyState = CONNECTING | OPEN | CLOSING | CLOSED

datatype conn_status = connecting | connected | disconnected

definition RECONNECT_INTERVAL_MS :: nat where
  "RECONNECT_INTERVAL_MS = 3000"

text \<open>
  One mounted \<^verbatim>\<open>App\<close>: the ref and the three state cells of \<^verbatim>\<open>useWebSocket\<close>, the
  \<^verbatim>\<open>showHUD\<close> cell of \<^verbatim>\<open>App\<close> and the \<^verbatim>\<open>value\<close> cell of \<^verbatim>\<open>IntentBar\<close>, together with
  the part of the browser the hook talks to: every \<^verbatim>\<open>WebSocket\<close> created so far with its
  \<^verbatim>\<open>readyState\<close> (an instance is named by its position in \<open>sockets\<close>), the due times of
  the pending \<^verbatim>\<open>setTimeout(connect, \<dots>)\<close> calls, a clock in milliseconds, and the frames
  handed to an open socket for transmission, oldest first, each with the instance that
  carries it and the value that \<^verbatim>\<open>JSON.stringify\<close> serialises.

  A state setter does not change its cell at once: React queues the update and commits
  the queue, in order, at the next render, after the handler that called the setter has
  returned. The handlers below, and \<open>step\<close>, give the state after the handler has
  returned and React has committed. Every setter of this program writes a constant or
  appends to the previous value, so that state is the one obtained by applying the
  setters in program order. Only in \<^verbatim>\<open>sendIntent\<close> does a property depend on the state
  at a point inside the handler; there the queue is explicit.
\<close>

record hook =
  wsRef :: "nat option"
  sockets :: "readyState list"
  status :: conn_status
  updates :: "jsval list"
  summary :: jsval
  timers :: "nat list"
  now :: nat
  wire :: "(nat \<times> jsval) list"
  showHUD :: bool
  input_value :: string

definition initial :: hook where
  "initial = \<lparr> wsRef = None, sockets = [], status = connecting, updates = [],
     summary = JNull, timers = [], now = 0, wire = [], showHUD = False, input_value = [] \<rparr>"

definition ready :: "hook \<Rightarrow> nat \<Rightarrow> readyState option" where
  "ready st i = (if i < length (sockets st) then Some (sockets st ! i) else None)"

subsection \<open>The browser's WebSocket methods\<close>

text \<open>
  \<^verbatim>\<open>ws.close()\<close>: starts the closing handshake of a connecting or open socket, and does
  nothing on one that is closing or closed. The close event comes later.
\<close>

definition ws_close :: "nat \<Rightarrow> hook \<Rightarrow> hook" where
  "ws_close i st =
     (case ready st i of
        Some CONNECTING \<Rightarrow> st\<lparr>sockets := (sockets st)[i := CLOSING]\<rparr>
      | Some OPEN \<Rightarrow> st\<lparr>sockets := (sockets st)[i := CLOSING]\<rparr>
      | _ \<Rightarrow> st)"

text \<open>
  \<^verbatim>\<open>ws.send(data)\<close>: throws InvalidStateError while the socket is connecting, transmits
  on an open socket, and silently drops the data on a closing or closed one.
\<close>

definition ws_send :: "nat \<Rightarrow> jsval \<Rightarrow> hook \<Rightarrow> exn option \<times> hook" where
  "ws_send i v st =
     (case ready st i of
        Some CONNECTING \<Rightarrow> (Some InvalidStateError, st)
      | Some OPEN \<Rightarrow> (None, st\<lparr>wire := wire st @ [(i, v)]\<rparr>)
      | _ \<Rightarrow> (None, st))"

subsection \<open>useWebSocket\<close>

text \<open>
  \<^verbatim>\<open>connect\<close>: returns at once when the current socket is open; otherwise creates a new
  instance, makes it the current one and installs the four handlers on it. The handlers
  are the functions below; \<open>onerror\<close> is the only one that uses the instance it was
  installed on.
\<close>

definition connect :: "hook \<Rightarrow> hook" where
  "connect st =
     (if (case wsRef st of None \<Rightarrow> False | Some c \<Rightarrow> ready st c = Some OPEN) then st
      else st\<lparr>sockets := sockets st @ [CONNECTING], wsRef := Some (length (sockets st))\<rparr>)"

definition onopen :: "hook \<Rightarrow> hook" where
  "onopen st = st\<lparr>status := connected\<rparr>"

text \<open>
  \<^verbatim>\<open>onmessage\<close>: the \<^verbatim>\<open>try\<close> block covers the parse and both property reads, so a
  SyntaxError and the TypeError of \<^verbatim>\<open>null.type\<close> end in the empty \<^verbatim>\<open>catch\<close>.
\<close>

definition onmessage :: "parsed \<Rightarrow> hook \<Rightarrow> hook" where
  "onmessage d st =
     (case d of
        SyntaxError \<Rightarrow> st
      | Value msg \<Rightarrow>
          (case get_prop msg ''type'' of
             Inl e \<Rightarrow> st
           | Inr t \<Rightarrow>
               if t = JStr ''state_update'' then st\<lparr>updates := updates st @ [msg]\<rparr>
               else if t = JStr ''result'' then
                 (case get_prop msg ''summary'' of
                    Inl e \<Rightarrow> st
                  | Inr s \<Rightarrow> st\<lparr>summary := s\<rparr>)
               else st))"

definition onclose :: "hook \<Rightarrow> hook" where
  "onclose st =
     st\<lparr>status := disconnected, timers := timers st @ [now st + RECONNECT_INTERVAL_MS]\<rparr>"

definition onerror :: "nat \<Rightarrow> hook \<Rightarrow> hook" where
  "onerror ws st = ws_close ws st"

text \<open>The effect's cleanup: \<^verbatim>\<open>wsRef.current?.close()\<close>.\<close>

definition cleanup :: "hook \<Rightarrow> hook" where
  "cleanup st = (case wsRef st of None \<Rightarrow> st | Some c \<Rightarrow> ws_close c st)"

definition intent_message :: "string \<Rightarrow> jsval" where
  "intent_message intent = JObj [(''type'', JStr ''intent''), (''payload'', JStr intent)]"

definition wsRef_send :: "jsval \<Rightarrow> hook \<Rightarrow> exn option \<times> hook" where
  "wsRef_send v st = (case wsRef st of None \<Rightarrow> (None, st) | Some c \<Rightarrow> ws_send c v st)"

text \<open>
  \<^verbatim>\<open>sendIntent\<close>, statement by statement. A program point is the committed state
  together with the updates queued so far in this handler. \<^verbatim>\<open>setUpdates([])\<close> and
  \<^verbatim>\<open>setSummary(null)\<close> each add to the queue and leave the committed state alone;
  \<^verbatim>\<open>wsRef.current?.send(\<dots>)\<close> acts on the browser at once. \<open>exec_stmts\<close> runs the
  statements in order, stops at an exception, and records every statement with the
  program point at which it ran.
\<close>

datatype setter = SetUpdates "jsval list" | SetSummary jsval

datatype stmt = Queue setter | Send jsval

fun apply_setter :: "setter \<Rightarrow> hook \<Rightarrow> hook" where
  "apply_setter (SetUpdates us) st = st\<lparr>updates := us\<rparr>"
| "apply_setter (SetSummary v) st = st\<lparr>summary := v\<rparr>"

definition commit :: "setter list \<Rightarrow> hook \<Rightarrow> hook" where
  "commit q st = foldl (\<lambda>s u. apply_setter u s) st q"

fun exec_stmt :: "stmt \<Rightarrow> hook \<times> setter list \<Rightarrow> exn option \<times> (hook \<times> setter list)" where
  "exec_stmt (Queue u) (c, q) = (None, (c, q @ [u]))"
| "exec_stmt (Send v) (c, q) = (case wsRef_send v c of (e, c') \<Rightarrow> (e, (c', q)))"

fun exec_stmts ::
  "stmt list \<Rightarrow> hook \<times> setter list \<Rightarrow>
     (stmt \<times> (hook \<times> setter list)) list \<times> exn option \<times> (hook \<times> setter list)" where
  "exec_stmts [] p = ([], None, p)"
| "exec_stmts (s # ss) p =
     (case exec_stmt s p of
        (Some e, p') \<Rightarrow> ([(s, p)], Some e, p')
      | (None, p') \<Rightarrow>
          (case exec_stmts ss p' of (log, r, p'') \<Rightarrow> ((s, p) # log, r, p'')))"

definition sendIntent_body :: "string \<Rightarrow> stmt list" where
  "sendIntent_body intent =
     [Queue (SetUpdates []), Queue (SetSummary JNull), Send (intent_message intent)]"

text \<open>
  The handler as a whole: the exception of \<^verbatim>\<open>send\<close>, if any, and the state once React
  has committed the queue (which it does after an exception too).
\<close>

definition sendIntent :: "string \<Rightarrow> hook \<Rightarrow> exn option \<times> hook" where
  "sendIntent intent st =
     (case exec_stmts (sendIntent_body intent) (st, []) of
        (log, e, (c, q)) \<Rightarrow> (e, commit q c))"

subsection \<open>IntentBar and App\<close>

text \<open>
  \<^verbatim>\<open>String.prototype.trim\<close> strips white space and line terminators from both ends. Of
  the code units it strips, these are the ones below 256: TAB, LF, VT, FF, CR, SPACE and
  NO-BREAK SPACE.
\<close>

definition js_whitespace :: "char \<Rightarrow> bool" where
  "js_whitespace c =
     (c \<in> set [CHR 0x09, CHR 0x0A, CHR 0x0B, CHR 0x0C, CHR 0x0D, CHR 0x20, CHR 0xA0])"

definition trim :: "string \<Rightarrow> string" where
  "trim s = rev (dropWhile js_whitespace (rev (dropWhile js_whitespace s)))"

text \<open>
  \<^verbatim>\<open>App.handleSubmit\<close>: \<^verbatim>\<open>sendIntent(intent); setShowHUD(true)\<close>. An exception of
  \<^verbatim>\<open>sendIntent\<close> leaves the rest of the handler unexecuted.
\<close>

definition App_handleSubmit :: "string \<Rightarrow> hook \<Rightarrow> exn option \<times> hook" where
  "App_handleSubmit intent st =
     (case sendIntent intent st of
        (Some e, st') \<Rightarrow> (Some e, st')
      | (None, st') \<Rightarrow> (None, st'\<lparr>showHUD := True\<rparr>))"

text \<open>
  \<^verbatim>\<open>IntentBar.handleSubmit\<close>, with its \<^verbatim>\<open>disabled\<close> prop and \<^verbatim>\<open>onSubmit\<close> bound to
  \<^verbatim>\<open>App.handleSubmit\<close>.
\<close>

definition IntentBar_handleSubmit :: "bool \<Rightarrow> hook \<Rightarrow> exn option \<times> hook" where
  "IntentBar_handleSubmit disabled st =
     (let trimmed = trim (input_value st) in
      if trimmed = [] \<or> disabled then (None, st)
      else (case App_handleSubmit trimmed st of
              (Some e, st') \<Rightarrow> (Some e, st')
            | (None, st') \<Rightarrow> (None, st'\<lparr>input_value := []\<rparr>)))"

text \<open>The prop that \<^verbatim>\<open>App\<close> passes: \<^verbatim>\<open>disabled={status !== "connected"}\<close>.\<close>

definition App_disabled :: "hook \<Rightarrow> bool" where
  "App_disabled st = (status st \<noteq> connected)"

section \<open>Events\<close>

text \<open>
  Everything runs on one thread, one event at a time, each handler to completion.
  \<^item> \<open>Mount\<close>: React runs the effect of \<^verbatim>\<open>useWebSocket\<close>, which calls \<^verbatim>\<open>connect\<close>;
    \<open>Unmount\<close>: React runs the effect's cleanup. The effect's only dependency is the
    stable \<^verbatim>\<open>connect\<close>, so a production build runs the effect once per component; React's
    strict mode and fast refresh run effect, cleanup and effect again on the same
    component, with its refs and state kept.
  \<^item> \<open>Open i\<close>: the handshake of instance \<open>i\<close> completes. \<open>Message i d\<close>: a frame
    arrives on \<open>i\<close>; the browser delivers it only while \<open>i\<close> is open.
    \<open>Close i\<close>: the close event, once per instance; the browser sets the instance's
    \<^verbatim>\<open>readyState\<close> to CLOSED and then calls the handler.
    \<open>Error i\<close>: an error event on an instance whose close event is still to come. (A
    browser reports a failed connection by an error event directly followed by the close
    event, both with \<^verbatim>\<open>readyState\<close> already CLOSED, so that the error handler's
    \<^verbatim>\<open>close()\<close> does nothing: that case is \<open>Close i\<close> alone.)
  \<^item> \<open>Elapse d\<close>: \<open>d\<close> milliseconds pass. \<open>Timeout k\<close>: the \<open>k\<close>-th pending timer fires,
    which the browser does no earlier than its due time.
  \<^item> \<open>Change v\<close>: the user edits the input to \<open>v\<close>; \<open>SubmitForm\<close>: the form's submit
    event, handled with the props of the current state; \<open>CloseHUD\<close>: the HUD's close
    button.
  An event that the browser cannot deliver in a state has no successor (\<open>None\<close>).
\<close>

datatype event =
    Mount
  | Unmount
  | Open nat
  | Message nat parsed
  | Error nat
  | Close nat
  | Elapse nat
  | Timeout nat
  | Change string
  | SubmitForm
  | CloseHUD

fun step :: "event \<Rightarrow> hook \<Rightarrow> hook option" where
  "step Mount st = Some (connect st)"
| "step Unmount st = Some (cleanup st)"
| "step (Open i) st =
     (if ready st i = Some CONNECTING
      then Some (onopen (st\<lparr>sockets := (sockets st)[i := OPEN]\<rparr>)) else None)"
| "step (Message i d) st =
     (if ready st i = Some OPEN then Some (onmessage d st) else None)"
| "step (Error i) st =
     (case ready st i of
        None \<Rightarrow> None
      | Some CLOSED \<Rightarrow> None
      | Some r \<Rightarrow> Some (onerror i st))"
| "step (Close i) st =
     (case ready st i of
        None \<Rightarrow> None
      | Some CLOSED \<Rightarrow> None
      | Some r \<Rightarrow> Some (onclose (st\<lparr>sockets := (sockets st)[i := CLOSED]\<rparr>)))"
| "step (Elapse d) st = Some (st\<lparr>now := now st + d\<rparr>)"
| "step (Timeout k) st =
     (if k < length (timers st) \<and> timers st ! k \<le> now st
      then Some (connect (st\<lparr>timers := take k (timers st) @ drop (Suc k) (timers st)\<rparr>))
      else None)"
| "step (Change v) st = Some (st\<lparr>input_value := v\<rparr>)"
| "step SubmitForm st = Some (snd (IntentBar_handleSubmit (App_disabled st) st))"
| "step CloseHUD st = Some (st\<lparr>showHUD := False\<rparr>)"

fun run :: "event list \<Rightarrow> hook \<Rightarrow> hook option" where
  "run [] st = Some st"
| "run (e # es) st = (case step e st of None \<Rightarrow> None | Some st' \<Rightarrow> run es st')"

section \<open>AgentHUD\<close>

datatype 'a rendering = Rendered 'a | RenderThrows exn | NotModelled

text \<open>\<^verbatim>\<open>updates[updates.length - 1] ?? null\<close>\<close>

definition latest :: "jsval list \<Rightarrow> jsval" where
  "latest us = (if us = [] then JNull else (case last us of Undefined \<Rightarrow> JNull | v \<Rightarrow> v))"






















text \<open>
  \<^verbatim>\<open>{summary && (<div> \<dots> {summary} \<dots> </div>)}\<close>: \<open>None\<close> when no panel is
  rendered, \<open>Some s\<close> for a panel whose paragraph shows the text \<open>s\<close>. The prop is
  typed \<^verbatim>\<open>string | null\<close>; a number, an array or an object as summary is not modelled.
\<close>

fun result_panel :: "jsval \<Rightarrow> string option rendering" where
  "result_panel (JStr s) = (if s = [] then Rendered None else Rendered (Some s))"
| "result_panel Undefined = Rendered None"
| "result_panel JNull = Rendered None"
| "result_panel (JBool b) = (if b then Rendered (Some []) else Rendered None)"
| "result_panel v = NotModelled"

text \<open>The status footer is rendered under \<^verbatim>\<open>latest && !summary\<close>.\<close>

definition status_footer_shown :: "jsval list \<Rightarrow> jsval \<Rightarrow> bool" where
  "status_footer_shown us s = (truthy (latest us) \<and> \<not> truthy s)"

text \<open>\<^verbatim>\<open>App\<close> renders the HUD under \<^verbatim>\<open>showHUD\<close>.\<close>

definition App_result_panel :: "hook \<Rightarrow> string option rendering" where
  "App_result_panel st = (if showHUD st then result_panel (summary st) else Rendered None)"

section \<open>Auxiliary definitions for the properties\<close>

text \<open>
  At most one instance has not delivered its close event yet, and it is the current one;
  a reconnect timer is pending only while every instance is closed, and then there is
  exactly one.
\<close>

definition one_live :: "hook \<Rightarrow> bool" where
  "one_live st \<longleftrightarrow>
     (\<forall>i < length (sockets st). sockets st ! i \<noteq> CLOSED \<longrightarrow> wsRef st = Some i) \<and>
     (timers st \<noteq> [] \<longrightarrow>
        length (timers st) = 1 \<and> (\<forall>i < length (sockets st). sockets st ! i = CLOSED)) \<and>
     (case wsRef st of None \<Rightarrow> False | Some c \<Rightarrow> c < length (sockets st))"

text \<open>The kinds of event that the properties single out.\<close>

fun is_open :: "event \<Rightarrow> bool" where
  "is_open (Open i) = True"
| "is_open e = False"

fun is_close :: "event \<Rightarrow> bool" where
  "is_close (Close i) = True"
| "is_close e = False"

fun is_timeout :: "event \<Rightarrow> bool" where
  "is_timeout (Timeout k) = True"
| "is_timeout e = False"









text \<open>The two progress events and the result of the end-to-end scenario.\<close>

definition planning :: jsval where
  "planning = JObj [(''type'', JStr ''state_update''), (''node'', JStr ''parse_intent''),
     (''thought'', JStr ''planning''), (''node_status'', JStr ''parse_intent''),
     (''current_task_index'', JNum 0), (''total_tasks'', JNum 1),
     (''sub_tasks'', JArr [JObj [(''id'', JNum 1), (''desc'', JStr ''search ebay''),
                                 (''status'', JStr ''pending'')]])]"



text \<open>The result frame of the scenario, and a result frame whose summary is empty.\<close>

definition found :: jsval where
  "found = JObj [(''type'', JStr ''result''), (''summary'', JStr ''Found RTX 5070 at $599'')]"

definition empty_result :: jsval where
  "empty_result = JObj [(''type'', JStr ''result''), (''summary'', JStr [])]"

text \<open>
  A session in progress, used to instantiate the theorems: instance 0 is open and
  current, one progress event and a result have been received, and the user has typed
  a new intent.
\<close>

definition busy :: hook where
  "busy = \<lparr> wsRef = Some 0, sockets = [OPEN], status = connected,
     updates = [planning], summary = JStr ''old'',
     timers = [], now = 0, wire = [], showHUD = True, input_value = ''go'' \<rparr>"

section \<open>Helper lemmas\<close>

lemma wsRef_send_reset:
  "wsRef_send v (st\<lparr>updates := us, summary := x\<rparr>) =
     (fst (wsRef_send v st), (snd (wsRef_send v st))\<lparr>updates := us, summary := x\<rparr>)"
  by (simp add: wsRef_send_def ws_send_def ready_def split: option.splits readyState.splits)

lemma sendIntent_log:
  "fst (exec_stmts (sendIntent_body intent) (st, [])) =
     [(Queue (SetUpdates []), (st, [])),
      (Queue (SetSummary JNull), (st, [SetUpdates []])),
      (Send (intent_message intent), (st, [SetUpdates [], SetSummary JNull]))]"
  by (cases "wsRef_send (intent_message intent) st")
     (simp add: sendIntent_body_def split: option.splits)

lemma sendIntent_commit:
  "sendIntent intent st =
     (fst (wsRef_send (intent_message intent) st),
      commit [SetUpdates [], SetSummary JNull] (snd (wsRef_send (intent_message intent) st)))"
  by (cases "wsRef_send (intent_message intent) st")
     (simp add: sendIntent_def sendIntent_body_def split: option.splits)

lemma sendIntent_eq:
  "sendIntent intent st =
     wsRef_send (intent_message intent) (st\<lparr>updates := [], summary := JNull\<rparr>)"
  by (simp add: sendIntent_commit wsRef_send_reset commit_def)

lemma all_dropWhile: "(\<forall>x \<in> set (dropWhile P s). P x) = (\<forall>x \<in> set s. P x)"
  by (induction s) auto

lemma trim_empty_iff: "trim s = [] \<longleftrightarrow> (\<forall>c \<in> set s. js_whitespace c)"
  by (simp add: trim_def all_dropWhile)

lemma ws_send_keeps:
  "updates (snd (ws_send i v st)) = updates st \<and> summary (snd (ws_send i v st)) = summary st"
  by (simp add: ws_send_def split: option.splits readyState.splits)

lemma ws_send_wire:
  "wire (snd (ws_send i v st)) = (if ready st i = Some OPEN then wire st @ [(i, v)] else wire st)"
  by (simp add: ws_send_def split: option.splits readyState.splits)

lemma wsRef_send_keeps:
  "updates (snd (wsRef_send v st)) = updates st \<and> summary (snd (wsRef_send v st)) = summary st"
  by (simp add: wsRef_send_def ws_send_keeps split: option.splits)

lemma wsRef_send_wire:
  "wire (snd (wsRef_send v st)) =
     (case wsRef st of None \<Rightarrow> wire st
      | Some c \<Rightarrow> if ready st c = Some OPEN then wire st @ [(c, v)] else wire st)"
  by (simp add: wsRef_send_def ws_send_wire split: option.splits)

lemma one_live_mount: "one_live (connect initial)"
  by (simp add: one_live_def connect_def initial_def)

lemma sendIntent_frame:
  "sockets (snd (sendIntent v st)) = sockets st \<and> timers (snd (sendIntent v st)) = timers st \<and>
   wsRef (snd (sendIntent v st)) = wsRef st \<and> now (snd (sendIntent v st)) = now st \<and>
   status (snd (sendIntent v st)) = status st"
  by (simp add: sendIntent_eq wsRef_send_def ws_send_def split: option.splits readyState.splits)

lemma submit_frame:
  "sockets (snd (IntentBar_handleSubmit d st)) = sockets st \<and>
   timers (snd (IntentBar_handleSubmit d st)) = timers st \<and>
   wsRef (snd (IntentBar_handleSubmit d st)) = wsRef st \<and>
   now (snd (IntentBar_handleSubmit d st)) = now st \<and>
   status (snd (IntentBar_handleSubmit d st)) = status st"
proof -
  obtain e st1 where s: "sendIntent (trim (input_value st)) st = (e, st1)"
    by (cases "sendIntent (trim (input_value st)) st")
  from sendIntent_frame [of "trim (input_value st)" st] s
  show ?thesis
    by (simp add: IntentBar_handleSubmit_def App_handleSubmit_def Let_def split: option.splits)
qed

lemma onmessage_frame:
  "sockets (onmessage d st) = sockets st \<and> timers (onmessage d st) = timers st \<and>
   wsRef (onmessage d st) = wsRef st \<and> now (onmessage d st) = now st \<and>
   status (onmessage d st) = status st"
  by (simp add: onmessage_def split: parsed.splits sum.splits)

lemma one_live_cong:
  "sockets st' = sockets st \<Longrightarrow> timers st' = timers st \<Longrightarrow> wsRef st' = wsRef st \<Longrightarrow>
   one_live st \<Longrightarrow> one_live st'"
  by (simp add: one_live_def split: option.splits)



lemma ws_close_frame:
  "length (sockets (ws_close i st)) = length (sockets st) \<and>
   timers (ws_close i st) = timers st \<and> wsRef (ws_close i st) = wsRef st \<and>
   now (ws_close i st) = now st \<and> status (ws_close i st) = status st"
  by (simp add: ws_close_def split: option.splits readyState.splits)

lemma ws_close_closed:
  "j < length (sockets st) \<Longrightarrow>
     (sockets (ws_close i st) ! j = CLOSED) = (sockets st ! j = CLOSED)"
  by (simp add: ws_close_def ready_def nth_list_update split: readyState.splits)

lemma one_live_ws_close: "one_live st \<Longrightarrow> one_live (ws_close i st)"
  by (simp add: one_live_def ws_close_frame ws_close_closed split: option.splits)



lemma one_live_others:
  "one_live st \<Longrightarrow> wsRef st = Some c \<Longrightarrow> j < length (sockets st) \<Longrightarrow> j \<noteq> c \<Longrightarrow>
     sockets st ! j = CLOSED"
proof (rule ccontr)
  assume a: "one_live st" "wsRef st = Some c" "j < length (sockets st)" "j \<noteq> c"
    and n: "sockets st ! j \<noteq> CLOSED"
  from a(1) have "\<forall>i < length (sockets st). sockets st ! i \<noteq> CLOSED \<longrightarrow> wsRef st = Some i"
    by (simp add: one_live_def)
  with a(3) n have "wsRef st = Some j" by blast
  with a(2) a(4) show False by simp
qed

lemma one_live_current:
  "one_live st \<Longrightarrow> i < length (sockets st) \<Longrightarrow> sockets st ! i \<noteq> CLOSED \<Longrightarrow>
     wsRef st = Some i \<and> timers st = []"
proof -
  assume a: "one_live st" "i < length (sockets st)" "sockets st ! i \<noteq> CLOSED"
  from a(1) have 1: "\<forall>i < length (sockets st). sockets st ! i \<noteq> CLOSED \<longrightarrow> wsRef st = Some i"
    and 2: "timers st \<noteq> [] \<longrightarrow> (\<forall>i < length (sockets st). sockets st ! i = CLOSED)"
    by (simp_all add: one_live_def)
  from 1 a(2,3) have "wsRef st = Some i" by blast
  moreover from 2 a(2,3) have "timers st = []" by blast
  ultimately show ?thesis by simp
qed

lemma one_live_open:
  assumes "one_live st" and "ready st i = Some CONNECTING"
  shows "one_live (onopen (st\<lparr>sockets := (sockets st)[i := OPEN]\<rparr>))"
proof -
  from assms(2) have i: "i < length (sockets st)" "sockets st ! i \<noteq> CLOSED"
    by (simp_all add: ready_def split: if_splits)
  from one_live_current [OF assms(1) i] have cur: "wsRef st = Some i" and t: "timers st = []"
    by simp_all
  have others: "\<And>j. j < length (sockets st) \<Longrightarrow> j \<noteq> i \<Longrightarrow> sockets st ! j = CLOSED"
    using one_live_others [OF assms(1) cur] by blast
  show ?thesis unfolding one_live_def
    by (simp add: onopen_def nth_list_update cur t i(1) others)
qed

lemma one_live_close:
  assumes "one_live st" and i: "i < length (sockets st)" "sockets st ! i \<noteq> CLOSED"
  shows "one_live (onclose (st\<lparr>sockets := (sockets st)[i := CLOSED]\<rparr>))"
proof -
  from one_live_current [OF assms(1) i] have cur: "wsRef st = Some i" and t: "timers st = []"
    by simp_all
  have others: "\<And>j. j < length (sockets st) \<Longrightarrow> j \<noteq> i \<Longrightarrow> sockets st ! j = CLOSED"
    using one_live_others [OF assms(1) cur] by blast
  show ?thesis unfolding one_live_def
    by (simp add: onclose_def nth_list_update cur t i(1) others)
qed

lemma one_live_waiting:
  "one_live st \<Longrightarrow> timers st \<noteq> [] \<Longrightarrow>
     length (timers st) = 1 \<and> (\<forall>i < length (sockets st). sockets st ! i = CLOSED) \<and>
     (\<exists>c. wsRef st = Some c \<and> c < length (sockets st))"
  unfolding one_live_def by (auto split: option.splits)

lemma one_live_timeout:
  assumes "one_live st" and "k < length (timers st)"
  shows "one_live (connect (st\<lparr>timers := take k (timers st) @ drop (Suc k) (timers st)\<rparr>))"
proof -
  from assms(2) have ne: "timers st \<noteq> []" by auto
  from one_live_waiting [OF assms(1) ne] obtain c where
    t: "length (timers st) = 1" and
    closed: "\<And>i. i < length (sockets st) \<Longrightarrow> sockets st ! i = CLOSED" and
    c: "wsRef st = Some c" "c < length (sockets st)"
    by blast
  from assms(2) t have k: "k = 0" by simp
  from closed c have cc: "sockets st ! c = CLOSED" by simp
  show ?thesis unfolding one_live_def
    by (simp add: connect_def ready_def nth_append t k closed c cc)
qed

lemma step_one_live:
  assumes inv: "one_live st" and e: "e \<noteq> Mount" and s: "step e st = Some st'"
  shows "one_live st'"
proof (cases e)
  case Mount with e show ?thesis by simp
next
  case Unmount
  with s have "st' = cleanup st" by simp
  with inv show ?thesis by (simp add: cleanup_def one_live_ws_close split: option.splits)
next
  case (Open i)
  with s have "ready st i = Some CONNECTING"
    and "st' = onopen (st\<lparr>sockets := (sockets st)[i := OPEN]\<rparr>)"
    by (simp_all split: if_splits)
  with inv show ?thesis by (simp add: one_live_open)
next
  case (Message i d)
  with s have "st' = onmessage d st" by (simp split: if_splits)
  with inv onmessage_frame [of d st] show ?thesis by (simp add: one_live_cong)
next
  case (Error i)
  with s have "st' = ws_close i st"
    by (simp add: onerror_def split: option.splits readyState.splits)
  with inv show ?thesis by (simp add: one_live_ws_close)
next
  case (Close i)
  with s have "i < length (sockets st)" and "sockets st ! i \<noteq> CLOSED"
    and "st' = onclose (st\<lparr>sockets := (sockets st)[i := CLOSED]\<rparr>)"
    by (auto simp: ready_def split: option.splits readyState.splits if_splits)
  with inv show ?thesis by (simp add: one_live_close)
next
  case (Elapse d)
  with s have "st' = st\<lparr>now := now st + d\<rparr>" by simp
  with inv one_live_cong [of st' st] show ?thesis by simp
next
  case (Timeout k)
  with s have "k < length (timers st)"
    and "st' = connect (st\<lparr>timers := take k (timers st) @ drop (Suc k) (timers st)\<rparr>)"
    by (simp_all split: if_splits)
  with inv show ?thesis by (simp add: one_live_timeout)
next
  case (Change v)
  with s have "st' = st\<lparr>input_value := v\<rparr>" by simp
  with inv one_live_cong [of st' st] show ?thesis by simp
next
  case SubmitForm
  with s have "st' = snd (IntentBar_handleSubmit (App_disabled st) st)" by simp
  with inv submit_frame [of "App_disabled st" st] show ?thesis by (simp add: one_live_cong)
next
  case CloseHUD
  with s have "st' = st\<lparr>showHUD := False\<rparr>" by simp
  with inv one_live_cong [of st' st] show ?thesis by simp
qed

lemma run_one_live:
  "one_live st \<Longrightarrow> Mount \<notin> set evs \<Longrightarrow> run evs st = Some st' \<Longrightarrow> one_live st'"
proof (induction evs arbitrary: st)
  case Nil then show ?case by simp
next
  case (Cons e evs)
  from Cons.prems(3) obtain s1 where s1: "step e st = Some s1" and r: "run evs s1 = Some st'"
    by (auto split: option.splits)
  from Cons.prems(2) have "e \<noteq> Mount" and m: "Mount \<notin> set evs" by auto
  with Cons.prems(1) s1 have "one_live s1" by (blast intro: step_one_live)
  then show ?case using m r by (rule Cons.IH)
qed

lemma reachable_one_live:
  "run (Mount # evs) initial = Some st \<Longrightarrow> Mount \<notin> set evs \<Longrightarrow> one_live st"
  using run_one_live [OF one_live_mount] by simp

lemma connect_status: "status (connect st) = status st"
  by (simp add: connect_def)

lemma step_status:
  assumes "step e st = Some st'"
  shows "status st' =
     (if is_open e then connected else if is_close e then disconnected else status st)"
proof (cases e)
  case Mount with assms show ?thesis by (auto simp: connect_status)
next
  case Unmount with assms show ?thesis
    by (auto simp: cleanup_def ws_close_frame split: option.splits)
next
  case (Open i) with assms show ?thesis by (auto simp: onopen_def split: if_splits)
next
  case (Message i d) with assms show ?thesis by (auto simp: onmessage_frame split: if_splits)
next
  case (Error i) with assms show ?thesis
    by (auto simp: onerror_def ws_close_frame split: option.splits readyState.splits)
next
  case (Close i) with assms show ?thesis
    by (auto simp: onclose_def split: option.splits readyState.splits)
next
  case (Elapse d) with assms show ?thesis by auto
next
  case (Timeout k) with assms show ?thesis by (auto simp: connect_status split: if_splits)
next
  case (Change v) with assms show ?thesis by auto
next
  case SubmitForm with assms show ?thesis by (auto simp: submit_frame)
next
  case CloseHUD with assms show ?thesis by auto
qed

lemma run_status_connecting:
  "run evs st = Some st' \<Longrightarrow>
     (status st' = connecting) =
       (status st = connecting \<and> (\<forall>e \<in> set evs. \<not> is_open e \<and> \<not> is_close e))"
proof (induction evs arbitrary: st)
  case Nil then show ?case by simp
next
  case (Cons e evs)
  from Cons.prems obtain s1 where s1: "step e st = Some s1" and r: "run evs s1 = Some st'"
    by (auto split: option.splits)
  from Cons.IH [OF r] step_status [OF s1] show ?case by auto
qed

lemma run_status_no_open:
  "run evs st = Some st' \<Longrightarrow> status st = disconnected \<Longrightarrow> \<forall>e \<in> set evs. \<not> is_open e \<Longrightarrow>
     status st' = disconnected"
proof (induction evs arbitrary: st)
  case Nil then show ?case by simp
next
  case (Cons e evs)
  from Cons.prems(1) obtain s1 where s1: "step e st = Some s1" and r: "run evs s1 = Some st'"
    by (auto split: option.splits)
  from step_status [OF s1] Cons.prems(2,3) have "status s1 = disconnected" by auto
  with Cons.IH [OF r] Cons.prems(3) show ?case by simp
qed

lemma one_live_ready_stale:
  assumes "one_live st" and "wsRef st \<noteq> Some j"
  shows "ready st j = None \<or> ready st j = Some CLOSED"
proof (cases "j < length (sockets st)")
  case False then show ?thesis by (simp add: ready_def)
next
  case True
  have "sockets st ! j = CLOSED"
  proof (rule ccontr)
    assume "sockets st ! j \<noteq> CLOSED"
    from one_live_current [OF assms(1) True this] assms(2) show False by simp
  qed
  with True show ?thesis by (simp add: ready_def)
qed

lemma closed_delivers_nothing:
  assumes "ready st j = None \<or> ready st j = Some CLOSED"
  shows "step (Open j) st = None \<and> step (Message j d) st = None \<and>
         step (Error j) st = None \<and> step (Close j) st = None"
  using assms by auto

lemma waiting_ready:
  assumes "one_live st" and "timers st \<noteq> []"
  shows "ready st j = None \<or> ready st j = Some CLOSED"
  using one_live_waiting [OF assms] by (simp add: ready_def)

lemma waiting_step:
  assumes inv: "one_live st" and t: "timers st \<noteq> []"
    and e: "e \<noteq> Mount" "\<not> is_timeout e" and s: "step e st = Some st'"
  shows "sockets st' = sockets st \<and> timers st' = timers st \<and> wsRef st' = wsRef st \<and>
         now st \<le> now st'"
proof (cases e)
  case Mount with e show ?thesis by simp
next
  case Unmount
  from one_live_waiting [OF inv t] obtain c where c: "wsRef st = Some c" by blast
  from waiting_ready [OF inv t, of c] have "ws_close c st = st"
    by (auto simp: ws_close_def)
  with Unmount s c show ?thesis by (simp add: cleanup_def)
next
  case (Open i)
  with s closed_delivers_nothing [OF waiting_ready [OF inv t, of i]] show ?thesis by simp
next
  case (Message i d)
  with s closed_delivers_nothing [OF waiting_ready [OF inv t, of i], of d] show ?thesis by simp
next
  case (Error i)
  with s closed_delivers_nothing [OF waiting_ready [OF inv t, of i]] show ?thesis by simp
next
  case (Close i)
  with s closed_delivers_nothing [OF waiting_ready [OF inv t, of i]] show ?thesis by simp
next
  case (Elapse d) with s show ?thesis by auto
next
  case (Timeout k) with e show ?thesis by simp
next
  case (Change v) with s show ?thesis by auto
next
  case SubmitForm with s submit_frame [of "App_disabled st" st] show ?thesis by auto
next
  case CloseHUD with s show ?thesis by auto
qed

lemma waiting_run:
  "one_live st \<Longrightarrow> timers st \<noteq> [] \<Longrightarrow> \<forall>e \<in> set es. e \<noteq> Mount \<and> \<not> is_timeout e \<Longrightarrow>
   run es st = Some st' \<Longrightarrow>
     sockets st' = sockets st \<and> timers st' = timers st \<and> wsRef st' = wsRef st \<and>
     now st \<le> now st'"
proof (induction es arbitrary: st)
  case Nil then show ?case by simp
next
  case (Cons e es)
  from Cons.prems(4) obtain s1 where s1: "step e st = Some s1" and r: "run es s1 = Some st'"
    by (auto split: option.splits)
  from Cons.prems(3) have e: "e \<noteq> Mount" "\<not> is_timeout e"
    and es: "\<forall>e \<in> set es. e \<noteq> Mount \<and> \<not> is_timeout e" by simp_all
  from waiting_step [OF Cons.prems(1,2) e s1]
  have f: "sockets s1 = sockets st \<and> timers s1 = timers st \<and> wsRef s1 = wsRef st \<and>
         now st \<le> now s1" .
  from step_one_live [OF Cons.prems(1) e(1) s1] have i1: "one_live s1" .
  from f Cons.prems(2) have t1: "timers s1 \<noteq> []" by simp
  from Cons.IH [OF i1 t1 es r] f show ?case by simp
qed

lemma close_schedules:
  assumes inv: "one_live st" and c: "step (Close i) st = Some st1"
  shows "timers st1 = [now st + RECONNECT_INTERVAL_MS] \<and> now st1 = now st \<and>
         length (sockets st1) = length (sockets st) \<and> status st1 = disconnected"
proof -
  from c have i: "i < length (sockets st)" "sockets st ! i \<noteq> CLOSED"
    and st1: "st1 = onclose (st\<lparr>sockets := (sockets st)[i := CLOSED]\<rparr>)"
    by (auto simp: ready_def split: option.splits readyState.splits if_splits)
  from one_live_current [OF inv i] have "timers st = []" by simp
  with st1 show ?thesis by (simp add: onclose_def)
qed

lemma timeout_reconnects:
  assumes inv: "one_live st" and t: "timers st = [t]" and due: "t \<le> now st"
  shows "step (Timeout 0) st =
           Some (st\<lparr>timers := [], sockets := sockets st @ [CONNECTING],
                    wsRef := Some (length (sockets st))\<rparr>)"
proof -
  from t have ne: "timers st \<noteq> []" by simp
  from one_live_waiting [OF inv ne] obtain c where c: "wsRef st = Some c" by blast
  from waiting_ready [OF inv ne, of c] have "ready st c \<noteq> Some OPEN" by auto
  then have "ready (st\<lparr>timers := []\<rparr>) c \<noteq> Some OPEN"
    by (simp add: ready_def split: if_splits)
  with t due c show ?thesis by (simp add: connect_def)
qed

lemma error_then_close:
  assumes "step (Error i) st = Some st0"
  shows "timers st0 = timers st \<and> length (sockets st0) = length (sockets st) \<and>
         now st0 = now st \<and> step (Close i) st0 \<noteq> None"
proof -
  from assms have r: "ready st i = Some CONNECTING \<or> ready st i = Some OPEN \<or> ready st i = Some CLOSING"
    and st0: "st0 = ws_close i st"
    by (auto simp: onerror_def split: option.splits readyState.splits)
  from r have i: "i < length (sockets st)" by (auto simp: ready_def split: if_splits)
  from r i have "ready (ws_close i st) i = Some CLOSING"
    by (auto simp: ws_close_def ready_def split: if_splits)
  with st0 show ?thesis by (simp add: ws_close_frame)
qed

lemma waiting_timer:
  assumes inv1: "one_live st1" and t1: "timers st1 = [t]"
    and es: "\<forall>e \<in> set es. e \<noteq> Mount \<and> \<not> is_timeout e" and r: "run es st1 = Some st2"
  shows "sockets st2 = sockets st1 \<and> timers st2 = timers st1 \<and>
         (now st2 < t \<longrightarrow> (\<forall>k. step (Timeout k) st2 = None)) \<and>
         (t \<le> now st2 \<longrightarrow>
            (\<exists>st3. step (Timeout 0) st2 = Some st3 \<and>
               sockets st3 = sockets st1 @ [CONNECTING] \<and>
               wsRef st3 = Some (length (sockets st1)) \<and> timers st3 = [] \<and>
               step (Close (length (sockets st1))) st3 \<noteq> None))"
proof -
  from t1 have ne: "timers st1 \<noteq> []" by simp
  from waiting_run [OF inv1 ne es r]
  have f: "sockets st2 = sockets st1" "timers st2 = timers st1" by simp_all
  from es have nm: "Mount \<notin> set es" by auto
  from inv1 nm r have inv2: "one_live st2" by (rule run_one_live)
  from f(2) t1 have t2: "timers st2 = [t]" by simp
  have early: "now st2 < t \<longrightarrow> (\<forall>k. step (Timeout k) st2 = None)"
  proof (intro impI allI)
    fix k assume "now st2 < t"
    with t2 show "step (Timeout k) st2 = None" by (cases k) simp_all
  qed
  have late: "t \<le> now st2 \<longrightarrow>
            (\<exists>st3. step (Timeout 0) st2 = Some st3 \<and>
               sockets st3 = sockets st1 @ [CONNECTING] \<and>
               wsRef st3 = Some (length (sockets st1)) \<and> timers st3 = [] \<and>
               step (Close (length (sockets st1))) st3 \<noteq> None)"
  proof
    assume due: "t \<le> now st2"
    let ?st3 = "st2\<lparr>timers := [], sockets := sockets st2 @ [CONNECTING],
                    wsRef := Some (length (sockets st2))\<rparr>"
    from timeout_reconnects [OF inv2 t2 due] have s3: "step (Timeout 0) st2 = Some ?st3" .
    have "step (Close (length (sockets st1))) ?st3 \<noteq> None"
      by (simp add: ready_def f(1))
    with s3 f(1)
    show "\<exists>st3. step (Timeout 0) st2 = Some st3 \<and>
                sockets st3 = sockets st1 @ [CONNECTING] \<and>
                wsRef st3 = Some (length (sockets st1)) \<and> timers st3 = [] \<and>
                step (Close (length (sockets st1))) st3 \<noteq> None"
      by simp
  qed
  from f early late show ?thesis by blast
qed
















section \<open>Properties\<close>

text \<open>
  C1, as amended. In any state, whatever the history and the result, \<^verbatim>\<open>sendIntent\<close>
  has queued the reset of the history (to the empty sequence) and of the result (to
  absent), in this order, when it hands the intent message to the transport: the send
  statement runs exactly once, with that message, at a program point whose queue holds
  the two resets and whose committed state is still the state at entry. React commits the
  queue when the handler has returned: in the state after the handler the history is
  empty and the result absent, and the only frame the handler can have put on the wire is
  that intent message, on the current instance.
\<close>

theorem sendIntent_queues_reset_before_send:
  "(Send (intent_message intent), (st, [SetUpdates [], SetSummary JNull]))
      \<in> set (fst (exec_stmts (sendIntent_body intent) (st, []))) \<and>
   (\<forall>v c q. (Send v, (c, q)) \<in> set (fst (exec_stmts (sendIntent_body intent) (st, []))) \<longrightarrow>
      v = intent_message intent \<and> c = st \<and> q = [SetUpdates [], SetSummary JNull]) \<and>
   sendIntent intent st =
     (fst (wsRef_send (intent_message intent) st),
      commit [SetUpdates [], SetSummary JNull] (snd (wsRef_send (intent_message intent) st))) \<and>
   updates (snd (sendIntent intent st)) = [] \<and>
   summary (snd (sendIntent intent st)) = JNull \<and>
   (wire (snd (sendIntent intent st)) \<noteq> wire st \<longrightarrow>
      (\<exists>c. wsRef st = Some c \<and> ready st c = Some OPEN \<and>
         wire (snd (sendIntent intent st)) = wire st @ [(c, intent_message intent)]))"
proof -
  have a: "(Send (intent_message intent), (st, [SetUpdates [], SetSummary JNull]))
      \<in> set (fst (exec_stmts (sendIntent_body intent) (st, [])))"
    by (simp add: sendIntent_log)
  have b: "\<forall>v c q. (Send v, (c, q)) \<in> set (fst (exec_stmts (sendIntent_body intent) (st, []))) \<longrightarrow>
      v = intent_message intent \<and> c = st \<and> q = [SetUpdates [], SetSummary JNull]"
    by (simp add: sendIntent_log)
  have u: "updates (snd (sendIntent intent st)) = []"
    and s: "summary (snd (sendIntent intent st)) = JNull"
    by (simp_all add: sendIntent_eq wsRef_send_keeps)
  have w: "wire (snd (sendIntent intent st)) \<noteq> wire st \<longrightarrow>
      (\<exists>c. wsRef st = Some c \<and> ready st c = Some OPEN \<and>
         wire (snd (sendIntent intent st)) = wire st @ [(c, intent_message intent)])"
    by (auto simp: sendIntent_eq wsRef_send_wire ready_def split: option.splits if_splits)
  from a b sendIntent_commit [of intent st] u s w show ?thesis by blast
qed

theorem sendIntent_queues_reset_before_send_witness:
  "fst (exec_stmts (sendIntent_body ''go'') (busy, [])) =
     [(Queue (SetUpdates []), (busy, [])),
      (Queue (SetSummary JNull), (busy, [SetUpdates []])),
      (Send (intent_message ''go''), (busy, [SetUpdates [], SetSummary JNull]))] \<and>
   updates busy = [planning] \<and> summary busy = JStr ''old'' \<and>
   updates (snd (sendIntent ''go'' busy)) = [] \<and>
   summary (snd (sendIntent ''go'' busy)) = JNull \<and>
   wire (snd (sendIntent ''go'' busy)) = [(0, intent_message ''go'')]"
  using sendIntent_queues_reset_before_send [of "''go''" busy]
  by (simp add: sendIntent_log busy_def sendIntent_eq wsRef_send_def ws_send_def ready_def
      commit_def)

text \<open>
  C1 as stated fails: when \<^verbatim>\<open>send\<close> runs and puts the intent message on the wire, the
  committed history and result are still the previous ones; the reset is in the queue.
\<close>

theorem reset_not_committed_at_send:
  "(Send (intent_message ''go''), (busy, [SetUpdates [], SetSummary JNull]))
      \<in> set (fst (exec_stmts (sendIntent_body ''go'') (busy, []))) \<and>
   updates busy = [planning] \<and> summary busy = JStr ''old'' \<and>
   exec_stmt (Send (intent_message ''go'')) (busy, [SetUpdates [], SetSummary JNull]) =
     (None, (busy\<lparr>wire := [(0, intent_message ''go'')]\<rparr>, [SetUpdates [], SetSummary JNull])) \<and>
   updates (busy\<lparr>wire := [(0, intent_message ''go'')]\<rparr>) \<noteq> [] \<and>
   summary (busy\<lparr>wire := [(0, intent_message ''go'')]\<rparr>) \<noteq> JNull"
  by (simp add: sendIntent_log busy_def wsRef_send_def ws_send_def ready_def)

text \<open>
  C2. While the connectivity signal is not \<open>connected\<close>, \<^verbatim>\<open>App\<close> passes
  \<^verbatim>\<open>disabled\<close> to the intent bar and a submission changes nothing: the history, the
  result and the wire are as before, and no exception is raised.
\<close>

theorem submit_gated_by_status:
  "status st \<noteq> connected \<Longrightarrow>
     IntentBar_handleSubmit (App_disabled st) st = (None, st) \<and> step SubmitForm st = Some st"
  by (simp add: IntentBar_handleSubmit_def App_disabled_def Let_def)

theorem submit_gated_by_status_witness:
  "status (busy\<lparr>status := disconnected\<rparr>) \<noteq> connected \<and>
   trim (input_value (busy\<lparr>status := disconnected\<rparr>)) = ''go'' \<and>
   step SubmitForm (busy\<lparr>status := disconnected\<rparr>) = Some (busy\<lparr>status := disconnected\<rparr>)"
  using submit_gated_by_status [of "busy\<lparr>status := disconnected\<rparr>"]
  by (simp add: busy_def trim_def js_whitespace_def)

text \<open>
  The gate of C2 is the intent bar's; \<^verbatim>\<open>sendIntent\<close> itself has none, and clears the
  history and the result whatever the connectivity signal is.
\<close>

lemma sendIntent_has_no_gate:
  "updates (snd (sendIntent intent st)) = [] \<and> summary (snd (sendIntent intent st)) = JNull"
  by (simp add: sendIntent_eq wsRef_send_keeps)






text \<open>
  C5, as amended. In a run in which the effect runs once, an instance that is not the
  current one delivers no open, message, error or close event: \<^verbatim>\<open>connect\<close> creates a
  new instance only from the reconnect timer of the previous instance's close event, and
  a closed instance delivers nothing more. So every socket event that occurs comes from
  the current instance. The handlers themselves compare no instance identity.
\<close>

theorem events_come_from_current_instance:
  assumes "run (Mount # evs) initial = Some st" and "Mount \<notin> set evs"
    and "wsRef st \<noteq> Some j"
  shows "step (Open j) st = None \<and> step (Message j d) st = None \<and>
         step (Error j) st = None \<and> step (Close j) st = None"
proof -
  from assms(1,2) have "one_live st" by (rule reachable_one_live)
  from one_live_ready_stale [OF this assms(3)] show ?thesis by (rule closed_delivers_nothing)
qed

theorem events_come_from_current_instance_witness:
  "map_option wsRef (run [Mount, Open 0, Close 0, Elapse 3000, Timeout 0] initial)
     = Some (Some 1) \<and>
   step (Message 0 (Value planning))
     (the (run [Mount, Open 0, Close 0, Elapse 3000, Timeout 0] initial)) = None \<and>
   step (Close 0) (the (run [Mount, Open 0, Close 0, Elapse 3000, Timeout 0] initial)) = None \<and>
   step (Open 1) (the (run [Mount, Open 0, Close 0, Elapse 3000, Timeout 0] initial)) \<noteq> None"
  using events_come_from_current_instance
    [of "[Open 0, Close 0, Elapse 3000, Timeout 0]"
        "the (run [Mount, Open 0, Close 0, Elapse 3000, Timeout 0] initial)" 0 "Value planning"]
  by (simp add: initial_def connect_def ready_def onopen_def onclose_def
      RECONNECT_INTERVAL_MS_def)

text \<open>
  C5 as stated fails. When React runs the effect, its cleanup and the effect again on
  the same component (as its strict mode does), instance 0 is still closing when instance
  1 is created; the close event of instance 0 then schedules a reconnect, which replaces
  the still connecting instance 1 by instance 2. The events of instance 1 are not
  discarded: its open event sets the connectivity signal, its frames reach the history and
  the result, and its close event sets the signal to \<open>disconnected\<close> and schedules a
  reconnect while the current instance 2 is open.
\<close>

theorem stale_instance_events_are_handled:
  "map_option wsRef
     (run [Mount, Unmount, Mount, Close 0, Elapse 3000, Timeout 0] initial) = Some (Some 2) \<and>
   map_option sockets
     (run [Mount, Unmount, Mount, Close 0, Elapse 3000, Timeout 0] initial)
     = Some [CLOSED, CONNECTING, CONNECTING] \<and>
   map_option status
     (run [Mount, Unmount, Mount, Close 0, Elapse 3000, Timeout 0] initial)
     = Some disconnected \<and>
   map_option status
     (run [Mount, Unmount, Mount, Close 0, Elapse 3000, Timeout 0, Open 1] initial)
     = Some connected \<and>
   map_option updates
     (run [Mount, Unmount, Mount, Close 0, Elapse 3000, Timeout 0, Open 1,
           Message 1 (Value planning)] initial) = Some [planning] \<and>
   map_option summary
     (run [Mount, Unmount, Mount, Close 0, Elapse 3000, Timeout 0, Open 1,
           Message 1 (Value found)] initial) = Some (JStr ''Found RTX 5070 at $599'') \<and>
   map_option timers
     (run [Mount, Unmount, Mount, Close 0, Elapse 3000, Timeout 0, Open 1, Open 2,
           Close 1] initial) = Some [6000] \<and>
   map_option status
     (run [Mount, Unmount, Mount, Close 0, Elapse 3000, Timeout 0, Open 1, Open 2,
           Close 1] initial) = Some disconnected \<and>
   map_option wsRef
     (run [Mount, Unmount, Mount, Close 0, Elapse 3000, Timeout 0, Open 1, Open 2,
           Close 1] initial) = Some (Some 2)"
  by (simp add: initial_def connect_def cleanup_def ws_close_def ready_def onopen_def onclose_def
      onmessage_def planning_def found_def RECONNECT_INTERVAL_MS_def)

text \<open>
  C6 fails on the code. The cleanup closes the current instance, whose close event then
  runs the same \<^verbatim>\<open>onclose\<close> as any disconnect: a reconnect timer is scheduled after the
  disposal, it fires 3000 ms later and creates a new instance, and when that instance
  closes a further timer is scheduled.
\<close>

theorem reconnect_after_disposal:
  "map_option sockets (run [Mount, Open 0, Unmount] initial) = Some [CLOSING] \<and>
   map_option timers (run [Mount, Open 0, Unmount] initial) = Some [] \<and>
   map_option timers (run [Mount, Open 0, Unmount, Close 0] initial) = Some [3000] \<and>
   map_option sockets (run [Mount, Open 0, Unmount, Close 0, Elapse 3000, Timeout 0] initial)
     = Some [CLOSED, CONNECTING] \<and>
   map_option timers
     (run [Mount, Open 0, Unmount, Close 0, Elapse 3000, Timeout 0, Close 1] initial)
     = Some [6000]"
  by (simp add: initial_def connect_def cleanup_def ws_close_def ready_def onopen_def onclose_def
      RECONNECT_INTERVAL_MS_def)

text \<open>
  C7 fails on the code, by the defect of C6: the retries do not end when the UI surface
  is disposed. A reconnect timer that is pending at the disposal is not cleared; it fires
  and creates a new instance, and when that instance closes the next retry is scheduled
  and made in turn.
\<close>

theorem retries_go_on_after_disposal:
  "map_option timers (run [Mount, Close 0, Unmount] initial) = Some [3000] \<and>
   map_option sockets (run [Mount, Close 0, Unmount, Elapse 3000, Timeout 0] initial)
     = Some [CLOSED, CONNECTING] \<and>
   map_option timers
     (run [Mount, Close 0, Unmount, Elapse 3000, Timeout 0, Close 1] initial) = Some [6000] \<and>
   map_option sockets
     (run [Mount, Close 0, Unmount, Elapse 3000, Timeout 0, Close 1, Elapse 3000, Timeout 0]
        initial) = Some [CLOSED, CLOSED, CONNECTING]"
  by (simp add: initial_def connect_def cleanup_def ws_close_def ready_def onclose_def
      RECONNECT_INTERVAL_MS_def)

text \<open>
  The rest of C7 holds. In a state reached after the effect has run once: the error
  handler only closes the instance, so an error schedules nothing by itself and is
  followed by the close event, the one path that retries. A close event schedules exactly
  one timer, due 3000 ms later. While that timer has not fired no instance is created, and
  it cannot fire before its due time. From its due time on it can fire; firing it creates
  exactly one new instance, which becomes the current one, and leaves no timer. The new
  instance can close in turn, and the same holds again: nothing counts or bounds the
  retries.
\<close>

lemma reconnect_once_after_fixed_delay:
  assumes "run (Mount # evs) initial = Some st" and "Mount \<notin> set evs"
  shows "RECONNECT_INTERVAL_MS = 3000 \<and>
    (step (Error i) st = Some st0 \<longrightarrow>
       timers st0 = timers st \<and> length (sockets st0) = length (sockets st) \<and>
       step (Close i) st0 \<noteq> None) \<and>
    (step (Close i) st = Some st1 \<longrightarrow>
       timers st1 = [now st + RECONNECT_INTERVAL_MS] \<and>
       length (sockets st1) = length (sockets st) \<and>
       (\<forall>es st2. (\<forall>e \<in> set es. e \<noteq> Mount \<and> \<not> is_timeout e) \<longrightarrow> run es st1 = Some st2 \<longrightarrow>
          sockets st2 = sockets st1 \<and> timers st2 = timers st1 \<and>
          (now st2 < now st + RECONNECT_INTERVAL_MS \<longrightarrow> (\<forall>k. step (Timeout k) st2 = None)) \<and>
          (now st + RECONNECT_INTERVAL_MS \<le> now st2 \<longrightarrow>
             (\<exists>st3. step (Timeout 0) st2 = Some st3 \<and>
                sockets st3 = sockets st1 @ [CONNECTING] \<and>
                wsRef st3 = Some (length (sockets st1)) \<and> timers st3 = [] \<and>
                step (Close (length (sockets st1))) st3 \<noteq> None))))"
proof -
  have a: "RECONNECT_INTERVAL_MS = 3000" by (simp add: RECONNECT_INTERVAL_MS_def)
  have b: "step (Error i) st = Some st0 \<longrightarrow>
       timers st0 = timers st \<and> length (sockets st0) = length (sockets st) \<and>
       step (Close i) st0 \<noteq> None"
    using error_then_close [of i st st0] by simp
  from assms have inv: "one_live st" by (rule reachable_one_live)
  have c: "step (Close i) st = Some st1 \<longrightarrow>
       timers st1 = [now st + RECONNECT_INTERVAL_MS] \<and>
       length (sockets st1) = length (sockets st) \<and>
       (\<forall>es st2. (\<forall>e \<in> set es. e \<noteq> Mount \<and> \<not> is_timeout e) \<longrightarrow> run es st1 = Some st2 \<longrightarrow>
          sockets st2 = sockets st1 \<and> timers st2 = timers st1 \<and>
          (now st2 < now st + RECONNECT_INTERVAL_MS \<longrightarrow> (\<forall>k. step (Timeout k) st2 = None)) \<and>
          (now st + RECONNECT_INTERVAL_MS \<le> now st2 \<longrightarrow>
             (\<exists>st3. step (Timeout 0) st2 = Some st3 \<and>
                sockets st3 = sockets st1 @ [CONNECTING] \<and>
                wsRef st3 = Some (length (sockets st1)) \<and> timers st3 = [] \<and>
                step (Close (length (sockets st1))) st3 \<noteq> None)))"
  proof
    assume cl: "step (Close i) st = Some st1"
    from close_schedules [OF inv cl]
    have t1: "timers st1 = [now st + RECONNECT_INTERVAL_MS]"
      and l1: "length (sockets st1) = length (sockets st)" by simp_all
    have inv1: "one_live st1" using inv _ cl by (rule step_one_live) simp
    from t1 l1 waiting_timer [OF inv1 t1]
    show "timers st1 = [now st + RECONNECT_INTERVAL_MS] \<and>
       length (sockets st1) = length (sockets st) \<and>
       (\<forall>es st2. (\<forall>e \<in> set es. e \<noteq> Mount \<and> \<not> is_timeout e) \<longrightarrow> run es st1 = Some st2 \<longrightarrow>
          sockets st2 = sockets st1 \<and> timers st2 = timers st1 \<and>
          (now st2 < now st + RECONNECT_INTERVAL_MS \<longrightarrow> (\<forall>k. step (Timeout k) st2 = None)) \<and>
          (now st + RECONNECT_INTERVAL_MS \<le> now st2 \<longrightarrow>
             (\<exists>st3. step (Timeout 0) st2 = Some st3 \<and>
                sockets st3 = sockets st1 @ [CONNECTING] \<and>
                wsRef st3 = Some (length (sockets st1)) \<and> timers st3 = [] \<and>
                step (Close (length (sockets st1))) st3 \<noteq> None)))"
      by blast
  qed
  from a b c show ?thesis by blast
qed

lemma reconnect_once_after_fixed_delay_instance:
  "map_option timers (run [Mount, Open 0, Error 0, Close 0] initial) = Some [3000] \<and>
   run [Mount, Open 0, Error 0, Close 0, Elapse 2999, Timeout 0] initial = None \<and>
   map_option sockets (run [Mount, Open 0, Error 0, Close 0, Elapse 2999] initial)
     = Some [CLOSED] \<and>
   map_option sockets (run [Mount, Open 0, Error 0, Close 0, Elapse 3000, Timeout 0] initial)
     = Some [CLOSED, CONNECTING] \<and>
   map_option timers (run [Mount, Open 0, Error 0, Close 0, Elapse 3000, Timeout 0] initial)
     = Some []"
  using reconnect_once_after_fixed_delay
    [of "[Open 0, Error 0]" "the (run [Mount, Open 0, Error 0] initial)" 0
        "the (run [Mount, Open 0, Error 0] initial)"
        "the (run [Mount, Open 0, Error 0, Close 0] initial)"]
  by (simp add: initial_def connect_def ws_close_def ready_def onopen_def onclose_def
      onerror_def RECONNECT_INTERVAL_MS_def)

text \<open>
  C8 fails on the code. After a result frame whose summary is the empty string the
  summary cell holds that string, not \<^verbatim>\<open>null\<close>, and the HUD is shown, yet no result
  panel is rendered and the status footer of a running task still is: the guard
  \<^verbatim>\<open>summary && \<dots>\<close> takes the empty string for an absent result. With a non-empty
  summary the panel is rendered and shows the summary as received.
\<close>

theorem empty_summary_shows_no_result_panel:
  "map_option summary
     (run [Mount, Open 0, Change ''go'', SubmitForm, Message 0 (Value planning),
           Message 0 (Value empty_result)] initial) = Some (JStr []) \<and>
   map_option showHUD
     (run [Mount, Open 0, Change ''go'', SubmitForm, Message 0 (Value planning),
           Message 0 (Value empty_result)] initial) = Some True \<and>
   map_option App_result_panel
     (run [Mount, Open 0, Change ''go'', SubmitForm, Message 0 (Value planning),
           Message 0 (Value empty_result)] initial) = Some (Rendered None) \<and>
   status_footer_shown [planning] (JStr []) \<and>
   map_option App_result_panel
     (run [Mount, Open 0, Change ''go'', SubmitForm, Message 0 (Value planning),
           Message 0 (Value found)] initial) = Some (Rendered (Some ''Found RTX 5070 at $599''))"
  by (simp add: initial_def connect_def ready_def onopen_def onmessage_def
      IntentBar_handleSubmit_def App_handleSubmit_def App_disabled_def sendIntent_eq
      wsRef_send_def ws_send_def trim_def js_whitespace_def planning_def empty_result_def
      found_def App_result_panel_def status_footer_shown_def latest_def Let_def)

text \<open>
  C9. A submission whose text is empty or consists of white space only is dropped by the
  intent bar before \<^verbatim>\<open>sendIntent\<close> is called: the state, and with it the wire, is
  unchanged, and no exception is raised.
\<close>

theorem blank_intent_is_noop:
  "\<forall>c \<in> set (input_value st). js_whitespace c \<Longrightarrow>
     IntentBar_handleSubmit disabled st = (None, st) \<and> step SubmitForm st = Some st"
  by (simp add: IntentBar_handleSubmit_def Let_def trim_empty_iff)

theorem blank_intent_is_noop_witness:
  "list_all js_whitespace (input_value (busy\<lparr>input_value := [CHR 0x20, CHR 0x09, CHR 0xA0]\<rparr>)) \<and>
   status (busy\<lparr>input_value := [CHR 0x20, CHR 0x09, CHR 0xA0]\<rparr>) = connected \<and>
   step SubmitForm (busy\<lparr>input_value := [CHR 0x20, CHR 0x09, CHR 0xA0]\<rparr>)
     = Some (busy\<lparr>input_value := [CHR 0x20, CHR 0x09, CHR 0xA0]\<rparr>)"
  using blank_intent_is_noop [of "busy\<lparr>input_value := [CHR 0x20, CHR 0x09, CHR 0xA0]\<rparr>"]
  by (simp add: busy_def js_whitespace_def)

text \<open>
  C10. The connectivity signal starts as \<open>connecting\<close> and is \<open>connecting\<close> exactly as
  long as no instance has delivered an open or a close event. Once it has another value
  it never becomes \<open>connecting\<close> again, whatever events follow. After a close event it
  is \<open>disconnected\<close> and stays so through the reconnection attempts and every other
  event until an open event, which makes it \<open>connected\<close>.
\<close>

theorem status_leaves_connecting_for_good:
  "status initial = connecting \<and>
   (run evs initial = Some st \<longrightarrow>
      (status st = connecting) = (\<forall>e \<in> set evs. \<not> is_open e \<and> \<not> is_close e)) \<and>
   (run evsa sa = Some sa' \<longrightarrow> status sa \<noteq> connecting \<longrightarrow> status sa' \<noteq> connecting) \<and>
   (step (Close i) sb = Some sb' \<longrightarrow> run evsb sb' = Some sb'' \<longrightarrow>
      (\<forall>e \<in> set evsb. \<not> is_open e) \<longrightarrow> status sb'' = disconnected) \<and>
   (step (Open j) sc = Some sc' \<longrightarrow> status sc' = connected)"
proof (intro conjI impI)
  show "status initial = connecting" by (simp add: initial_def)
next
  assume "run evs initial = Some st"
  from run_status_connecting [OF this]
  show "(status st = connecting) = (\<forall>e \<in> set evs. \<not> is_open e \<and> \<not> is_close e)"
    by (simp add: initial_def)
next
  assume "run evsa sa = Some sa'" and "status sa \<noteq> connecting"
  with run_status_connecting [of evsa sa sa'] show "status sa' \<noteq> connecting" by simp
next
  assume c: "step (Close i) sb = Some sb'" and r: "run evsb sb' = Some sb''"
    and n: "\<forall>e \<in> set evsb. \<not> is_open e"
  from step_status [OF c] have "status sb' = disconnected" by simp
  with r n show "status sb'' = disconnected" by (blast intro: run_status_no_open)
next
  assume "step (Open j) sc = Some sc'"
  from step_status [OF this] show "status sc' = connected" by simp
qed

theorem status_leaves_connecting_for_good_witness:
  "map_option status (run [Mount, Elapse 10, Change ''go'', SubmitForm] initial)
     = Some connecting \<and>
   map_option status (run [Mount, Close 0] initial) = Some disconnected \<and>
   map_option status (run [Mount, Close 0, Elapse 3000, Timeout 0, Error 1] initial)
     = Some disconnected \<and>
   map_option status (run [Mount, Close 0, Elapse 3000, Timeout 0, Open 1] initial)
     = Some connected"
  using status_leaves_connecting_for_good
    [where evs = "[Mount, Elapse 10, Change ''go'', SubmitForm]"
       and st = "the (run [Mount, Elapse 10, Change ''go'', SubmitForm] initial)"
       and evsa = "[Elapse 3000, Timeout 0, Error 1]"
       and sa = "the (run [Mount, Close 0] initial)"
       and sa' = "the (run [Mount, Close 0, Elapse 3000, Timeout 0, Error 1] initial)"
       and i = 0
       and sb = "the (run [Mount] initial)"
       and sb' = "the (run [Mount, Close 0] initial)"
       and evsb = "[Elapse 3000, Timeout 0, Error 1]"
       and sb'' = "the (run [Mount, Close 0, Elapse 3000, Timeout 0, Error 1] initial)"
       and j = 1
       and sc = "the (run [Mount, Close 0, Elapse 3000, Timeout 0] initial)"
       and sc' = "the (run [Mount, Close 0, Elapse 3000, Timeout 0, Open 1] initial)"]
  by (simp add: initial_def connect_def ready_def onopen_def onclose_def onerror_def ws_close_def
      IntentBar_handleSubmit_def App_disabled_def trim_def js_whitespace_def Let_def
      RECONNECT_INTERVAL_MS_def)

end
